theory Spec2Isabelle
  imports Complex_Main
begin

section \<open>Values, arrays, errors and diagnostics\<close>

text \<open>
  A numpy element is either a number or NaN. Arithmetic on numbers is the arithmetic of
  the reals: rounding and the infinities of IEEE floats are not part of this model.
  Column and node indices are integers.
\<close>

datatype 'a np = NaN | Num 'a

fun isnan :: "'a np \<Rightarrow> bool" where
  "isnan NaN = True"
| "isnan (Num x) = False"

text \<open>
  An \<open>ndarray\<close> is its shape and its elements in C order, as \<open>flatten()\<close> returns them;
  a well-formed array has as many elements as the product of its shape.
\<close>

record 'a ndarray =
  shape :: "nat list"
  flat :: "'a np list"

definition wf_ndarray :: "'a ndarray \<Rightarrow> bool" where
  "wf_ndarray a \<longleftrightarrow> length (flat a) = prod_list (shape a)"

text \<open>
  \<open>numbers xs\<close> is the list of the numbers of \<open>xs\<close> when none of them is NaN, and
  \<open>None\<close> when \<open>np.any(np.isnan(xs))\<close> holds.
\<close>

fun numbers :: "'a np list \<Rightarrow> 'a list option" where
  "numbers [] = Some []"
| "numbers (NaN # xs) = None"
| "numbers (Num x # xs) = (case numbers xs of None \<Rightarrow> None | Some ys \<Rightarrow> Some (x # ys))"

datatype error =
  IndexError
| ValueError
| KeyError
| TypeError
| ImportError
| BackendError

datatype level = Debug | Info | Warning

text \<open>A log record: level, format string and the integers formatted into it.\<close>

datatype log_entry = Log level string "nat list"

section \<open>The interpolator\<close>

text \<open>
  The fields of \<open>DiscreteInterpolator\<close>. \<open>self.A\<close>, \<open>self.row\<close>, \<open>self.col\<close>, \<open>self.B\<close> and
  \<open>self.c_\<close> are \<open>lsq_A\<close>, \<open>lsq_row\<close>, \<open>lsq_col\<close>, \<open>lsq_B\<close> and \<open>lsq_c\<close>;
  \<open>self.eq_const_c_\<close> is \<open>eq_const_c\<close> and \<open>self.c\<close> is \<open>node_c\<close>. \<open>n_nodes\<close> and
  \<open>properties\<close> belong to the support; \<open>interp_shape\<close>, \<open>up_to_date\<close> and
  \<open>propertyname\<close> are attributes of the base class. \<open>region_function\<close> and
  \<open>region_map\<close> are written but never read by the methods below and are left out.

  \<open>region\<close> is the list of the selected node indices in increasing position:
  \<open>np.arange(0, n_nodes)\<close> after construction, the positions where the mask is true
  after \<open>set_region\<close>. Indexing an array of length \<open>n_nodes\<close> with either form selects
  exactly these positions, in this order.
\<close>

record interp =
  n_nodes :: nat
  properties :: "string \<rightharpoonup> real np list"
  propertyname :: string
  interp_shape :: string
  up_to_date :: bool
  region :: "nat list"
  nx :: nat
  lsq_c :: nat
  lsq_A :: "real list"
  lsq_row :: "nat list"
  lsq_col :: "int list"
  lsq_B :: "real list"
  solver :: "string option"
  eq_const_C :: "real list"
  eq_const_row :: "nat list"
  eq_const_col :: "int list"
  eq_const_d :: "real np list"
  eq_const_c :: nat
  node_c :: "real np list"

text \<open>
  The constructor, for a support of \<open>n\<close> nodes; \<open>shp\<close> and \<open>pname\<close> are the shape and
  property name the base class holds. A square interpolator starts with \<open>np.zeros(nx)\<close>
  as its right-hand side.
\<close>

definition init :: "nat \<Rightarrow> string \<Rightarrow> string \<Rightarrow> interp" where
  "init n shp pname =
     \<lparr>n_nodes = n, properties = Map.empty, propertyname = pname, interp_shape = shp,
      up_to_date = False, region = [0..<n], nx = n, lsq_c = 0, lsq_A = [], lsq_row = [],
      lsq_col = [], lsq_B = (if shp = ''square'' then replicate n 0 else []),
      solver = None, eq_const_C = [], eq_const_row = [], eq_const_col = [],
      eq_const_d = [], eq_const_c = 0, node_c = []\<rparr>"

text \<open>\<open>set_region\<close>, given the boolean mask the region function returns on the nodes.\<close>

definition mask_indices :: "bool list \<Rightarrow> nat list" where
  "mask_indices m = filter (\<lambda>i. m ! i) [0..<length m]"

definition set_region :: "interp \<Rightarrow> bool list \<Rightarrow> error + interp" where
  "set_region s m =
     (if length m \<noteq> n_nodes s then Inl IndexError
      else Inr (s\<lparr>region := mask_indices m, nx := length (mask_indices m)\<rparr>))"

definition reset :: "interp \<Rightarrow> interp \<times> log_entry list" where
  "reset s =
     (s\<lparr>lsq_c := 0, lsq_A := [], lsq_col := [], lsq_row := [],
        eq_const_C := [], eq_const_row := [], eq_const_col := [], eq_const_d := [],
        eq_const_c := 0, lsq_B := []\<rparr>,
      [Log Debug ''Resetting interpolation constraints'' []])"

subsection \<open>Soft constraints\<close>

text \<open>
  \<open>np.tile(np.arange(0, nr), (ncol, 1)).T + c_\<close>, flattened: row \<open>i\<close> of the
  \<open>nr\<close> by \<open>ncol\<close> array holds \<open>c_ + i\<close> in every column.
\<close>

definition tile_rows :: "nat \<Rightarrow> nat \<Rightarrow> nat \<Rightarrow> nat list" where
  "tile_rows c nr ncol = concat (map (\<lambda>i. replicate ncol (c + i)) [0..<nr])"

text \<open>
  \<open>add_constraints_to_least_squares\<close>. A batch holding a NaN is refused with a warning.
  Otherwise \<open>A.shape[0]\<close> raises on a 0-dimensional array, the row counter advances by
  \<open>nr\<close>, and on a rectangular interpolator the entries with a nonzero coefficient are
  appended; the boolean index \<open>~mask\<close> has the size of \<open>A\<close> and raises on an array of
  another size. The state after a raise is not modelled.
\<close>

definition add_constraints_to_least_squares ::
  "interp \<Rightarrow> real ndarray \<Rightarrow> real ndarray \<Rightarrow> int ndarray \<Rightarrow> error + interp \<times> log_entry list"
where
  "add_constraints_to_least_squares s A B idc =
     (case (numbers (flat idc), numbers (flat A), numbers (flat B)) of
        (Some idc', Some A', Some B') \<Rightarrow>
          (case shape A of
             [] \<Rightarrow> Inl IndexError
           | d0 # ds \<Rightarrow>
               let nr = (if length (shape A) > 2 then d0 * hd ds else d0);
                   rows = tile_rows (lsq_c s) nr (last (shape A));
                   s1 = s\<lparr>lsq_c := lsq_c s + nr\<rparr>
               in if interp_shape s = ''rectangular'' then
                    if length rows \<noteq> length A' then Inl IndexError
                    else if length idc' \<noteq> length A' then Inl IndexError
                    else
                      let keep = filter (\<lambda>(a, r, c). a \<noteq> 0) (zip A' (zip rows idc'))
                      in Inr (s1\<lparr>lsq_A := lsq_A s @ map fst keep,
                                 lsq_row := lsq_row s @ map (fst \<circ> snd) keep,
                                 lsq_col := lsq_col s @ map (snd \<circ> snd) keep,
                                 lsq_B := lsq_B s @ B'\<rparr>, [])
                  else Inr (s1, []))
      | _ \<Rightarrow> Inr (s, [Log Warning ''Constraints contain nan not adding constraints'' []]))"

subsection \<open>Indexing with an index array\<close>

text \<open>
  \<open>x[idx] = vals\<close> with an index array: an index beyond the array raises; \<open>vals\<close> has
  either the length of \<open>idx\<close> or one element, which is broadcast; the assignments are
  made in order, so the last one to a position stays. \<open>x[idx] = v\<close> with a scalar
  assigns \<open>v\<close> at every index.
\<close>

definition setitem_scalar :: "'a list \<Rightarrow> nat list \<Rightarrow> 'a \<Rightarrow> error + 'a list" where
  "setitem_scalar x idx v =
     (if \<exists>i\<in>set idx. length x \<le> i then Inl IndexError
      else Inr (fold (\<lambda>i a. a[i := v]) idx x))"

definition setitem :: "'a list \<Rightarrow> nat list \<Rightarrow> 'a list \<Rightarrow> error + 'a list" where
  "setitem x idx vals =
     (if \<exists>i\<in>set idx. length x \<le> i then Inl IndexError
      else if length vals = length idx then Inr (fold (\<lambda>(i, v) a. a[i := v]) (zip idx vals) x)
      else if length vals = 1 then setitem_scalar x idx (hd vals)
      else Inl ValueError)"

definition getitem :: "'a list \<Rightarrow> nat list \<Rightarrow> error + 'a list" where
  "getitem x idx =
     (if \<exists>i\<in>set idx. length x \<le> i then Inl IndexError else Inr (map (\<lambda>i. x ! i) idx))"

text \<open>An integer index into an array of length \<open>n\<close>: negative indices count from the end.\<close>

definition norm_index :: "nat \<Rightarrow> int \<Rightarrow> nat option" where
  "norm_index n i =
     (if 0 \<le> i \<and> i < int n then Some (nat i)
      else if - int n \<le> i \<and> i < 0 then Some (nat (i + int n))
      else None)"

fun norm_indices :: "nat \<Rightarrow> int list \<Rightarrow> nat list option" where
  "norm_indices n [] = Some []"
| "norm_indices n (i # ix) =
     (case norm_index n i of
        None \<Rightarrow> None
      | Some j \<Rightarrow> (case norm_indices n ix of None \<Rightarrow> None | Some js \<Rightarrow> Some (j # js)))"

text \<open>\<open>x[mask]\<close> with a boolean mask of the length of \<open>x\<close>.\<close>

definition compress :: "bool list \<Rightarrow> 'a list \<Rightarrow> 'a list" where
  "compress b x = map snd (filter fst (zip b x))"

subsection \<open>Equality constraints\<close>

text \<open>
  The argument \<open>values\<close> is, as the docstring has it, a numpy array or a Python list.
\<close>

datatype 'a pyseq = NdArray "'a list" | PyList "'a list"

text \<open>
  \<open>add_equality_constraints\<close>: \<open>gi\<close> maps a node to its index in the region, or to -1;
  the entries of \<open>node_idx\<close> whose node is in the region are kept, and the coefficient,
  column and row stores are extended. Then \<open>values\<close> is indexed with the boolean array
  \<open>outside\<close>, without a conversion to an array: a Python list raises \<open>TypeError\<close> there
  and an array of another length raises \<open>IndexError\<close>, both after the three stores have
  grown. An error is returned with the interpolator as the raise leaves it.
\<close>

definition add_equality_constraints ::
  "interp \<Rightarrow> int list \<Rightarrow> real np pyseq \<Rightarrow> error \<times> interp + interp"
where
  "add_equality_constraints s node_idx values =
     (case setitem (replicate (n_nodes s) (- 1)) (region s) (map int [0..<nx s]) of
        Inl e \<Rightarrow> Inl (e, s)
      | Inr gi \<Rightarrow>
          (case norm_indices (length gi) node_idx of
             None \<Rightarrow> Inl (IndexError, s)
           | Some js \<Rightarrow>
               let idc = map (\<lambda>j. gi ! j) js;
                   outside = map (\<lambda>v. \<not> (v = - 1)) idc;
                   m = length (compress outside idc);
                   s1 = s\<lparr>eq_const_C := eq_const_C s @ replicate m 1,
                          eq_const_col := eq_const_col s @ compress outside idc,
                          eq_const_row := eq_const_row s @ [0..<m]\<rparr>
               in case values of
                    PyList vs \<Rightarrow> Inl (TypeError, s1)
                  | NdArray vs \<Rightarrow>
                      if length vs \<noteq> length outside then Inl (IndexError, s1)
                      else Inr (s1\<lparr>eq_const_d := eq_const_d s @ compress outside vs,
                                  eq_const_c := eq_const_c s + m\<rparr>)))"

text \<open>
  The position of node \<open>i\<close> in the region, as the specification words it: the number
  of region entries before the first occurrence of \<open>i\<close>.
\<close>

definition region_local :: "nat list \<Rightarrow> nat \<Rightarrow> nat" where
  "region_local r i = length (takeWhile (\<lambda>j. j \<noteq> i) r)"

text \<open>A region of a support of \<open>n\<close> nodes: distinct node indices below \<open>n\<close>, \<open>nx\<close> of them.\<close>

definition region_ok :: "interp \<Rightarrow> bool" where
  "region_ok s \<longleftrightarrow>
     distinct (region s) \<and> list_all (\<lambda>i. i < n_nodes s) (region s) \<and> nx s = length (region s)"

section \<open>Matrix assembly\<close>

text \<open>
  A sparse matrix is its shape and its entries. \<open>coo_matrix\<close> checks what scipy checks:
  the three arrays have one length, and when there are entries no index is negative or
  beyond the shape. Entries given twice for one position are summed.
\<close>

record matrix =
  nrows :: nat
  ncols :: nat
  ent :: "nat \<Rightarrow> nat \<Rightarrow> real"

definition coo_entry :: "real list \<Rightarrow> nat list \<Rightarrow> int list \<Rightarrow> nat \<Rightarrow> nat \<Rightarrow> real" where
  "coo_entry vals rows cols i j =
     sum_list (map fst (filter (\<lambda>(v, r, c). r = i \<and> c = int j) (zip vals (zip rows cols))))"

definition coo_matrix :: "real list \<Rightarrow> nat list \<Rightarrow> int list \<Rightarrow> nat \<Rightarrow> nat \<Rightarrow> error + matrix" where
  "coo_matrix vals rows cols m n =
     (if length rows \<noteq> length vals \<or> length cols \<noteq> length vals then Inl ValueError
      else if \<exists>r\<in>set rows. m \<le> r then Inl ValueError
      else if \<exists>c\<in>set cols. c < 0 \<or> int n \<le> c then Inl ValueError
      else Inr \<lparr>nrows = m, ncols = n, ent = coo_entry vals rows cols\<rparr>)"

definition transpose_m :: "matrix \<Rightarrow> matrix" where
  "transpose_m X = \<lparr>nrows = ncols X, ncols = nrows X, ent = (\<lambda>i j. ent X j i)\<rparr>"

definition dot_mm :: "matrix \<Rightarrow> matrix \<Rightarrow> error + matrix" where
  "dot_mm X Y =
     (if ncols X \<noteq> nrows Y then Inl ValueError
      else Inr \<lparr>nrows = nrows X, ncols = ncols Y,
                ent = (\<lambda>i j. \<Sum>k<ncols X. ent X i k * ent Y k j)\<rparr>)"

definition dot_mv :: "matrix \<Rightarrow> real list \<Rightarrow> error + real list" where
  "dot_mv X v =
     (if ncols X \<noteq> length v then Inl ValueError
      else Inr (map (\<lambda>i. \<Sum>k<ncols X. ent X i k * v ! k) [0..<nrows X]))"

text \<open>\<open>bmat\<close> of the block rows \<open>P, Q\<close> and \<open>R, None\<close>: the missing block is zero.\<close>

definition bmat :: "matrix \<Rightarrow> matrix \<Rightarrow> matrix \<Rightarrow> error + matrix" where
  "bmat P Q R =
     (if nrows P \<noteq> nrows Q \<or> ncols P \<noteq> ncols R then Inl ValueError
      else Inr \<lparr>nrows = nrows P + nrows R, ncols = ncols P + ncols Q,
                ent = (\<lambda>i j.
                  if i < nrows P then (if j < ncols P then ent P i j else ent Q i (j - ncols P))
                  else (if j < ncols P then ent R (i - nrows P) j else 0))\<rparr>)"

text \<open>\<open>np.finfo('float').eps\<close>.\<close>

definition float_eps :: real where
  "float_eps = 1 / 2 ^ 52"

text \<open>\<open>M + eye(M.shape[0]) * eps\<close>.\<close>

definition add_eye :: "matrix \<Rightarrow> real \<Rightarrow> error + matrix" where
  "add_eye M e =
     (if ncols M \<noteq> nrows M then Inl ValueError
      else Inr (M\<lparr>ent := (\<lambda>i j. ent M i j + (if i = j \<and> i < nrows M then 1 else 0) * e)\<rparr>))"

text \<open>
  \<open>build_matrix\<close>. The rectangular system is returned as it is assembled; the square system
  is the normal equations, bordered by the equality block when the equality row counter
  is positive, and damped on the diagonal on request.
\<close>

definition build_matrix ::
  "interp \<Rightarrow> bool \<Rightarrow> bool \<Rightarrow> error + (matrix \<times> real np list) \<times> log_entry list"
where
  "build_matrix s square damp =
     (let l0 = [Log Info ''Interpolation matrix is %i x %i'' [lsq_c s, nx s]] in
      case coo_matrix (lsq_A s) (lsq_row s) (lsq_col s) (lsq_c s) (nx s) of
        Inl e \<Rightarrow> Inl e
      | Inr A \<Rightarrow>
          if \<not> square then
            Inr ((A, map Num (lsq_B s)),
                 l0 @ [Log Info ''Using rectangular matrix, equality constraints are not used'' []])
          else
            (case dot_mm (transpose_m A) A of
               Inl e \<Rightarrow> Inl e
             | Inr AAT \<Rightarrow>
                 (case dot_mv (transpose_m A) (lsq_B s) of
                    Inl e \<Rightarrow> Inl e
                  | Inr BT \<Rightarrow>
                      (case
                         (if eq_const_c s > 0 then
                            (case coo_matrix (eq_const_C s) (eq_const_row s) (eq_const_col s)
                                    (eq_const_c s) (nx s) of
                               Inl e \<Rightarrow> Inl e
                             | Inr C \<Rightarrow>
                                 (case bmat AAT (transpose_m C) C of
                                    Inl e \<Rightarrow> Inl e
                                  | Inr M \<Rightarrow>
                                      Inr ((M, map Num BT @ eq_const_d s),
                                           l0 @ [Log Info ''Equality block is %i x %i''
                                                   [eq_const_c s, nx s]])))
                          else Inr ((AAT, map Num BT), l0))
                       of
                         Inl e \<Rightarrow> Inl e
                       | Inr ((M, v), l1) \<Rightarrow>
                           if damp then
                             (case add_eye M float_eps of
                                Inl e \<Rightarrow> Inl e
                              | Inr M' \<Rightarrow>
                                  Inr ((M', v), l1 @ [Log Info ''Adding eps to matrix diagonal'' []]))
                           else Inr ((M, v), l1)))))"

text \<open>
  The soft-constraint and equality stores of an accumulated system: stores of equal
  lengths, row indices below the row counter, column indices among the \<open>nx\<close> unknowns,
  and one right-hand side (one target) per row.
\<close>

definition lsq_wf :: "interp \<Rightarrow> bool" where
  "lsq_wf s \<longleftrightarrow>
     length (lsq_row s) = length (lsq_A s) \<and> length (lsq_col s) = length (lsq_A s)
     \<and> list_all (\<lambda>r. r < lsq_c s) (lsq_row s)
     \<and> list_all (\<lambda>c. 0 \<le> c \<and> c < int (nx s)) (lsq_col s)"

definition eq_wf :: "interp \<Rightarrow> bool" where
  "eq_wf s \<longleftrightarrow>
     length (eq_const_row s) = length (eq_const_C s) \<and> length (eq_const_col s) = length (eq_const_C s)
     \<and> list_all (\<lambda>r. r < eq_const_c s) (eq_const_row s)
     \<and> list_all (\<lambda>c. 0 \<le> c \<and> c < int (nx s)) (eq_const_col s)
     \<and> length (eq_const_d s) = eq_const_c s"

section \<open>Solving\<close>

text \<open>
  The linear solvers are libraries outside the repository, so they are parameters: each
  takes the assembled matrix and right-hand side and returns a vector or raises. A
  library that is not installed raises \<open>ImportError\<close>, any other failure is a
  \<open>BackendError\<close>. The solver options of \<open>kwargs\<close> other than \<open>damp\<close> and \<open>external\<close> are
  passed on as they are (\<open>None\<close> when there are none); reading them, and the info
  records about them, are left to the backend.
\<close>

type_synonym vec = "real np list"

type_synonym backend = "matrix \<Rightarrow> vec \<Rightarrow> error + vec"

record 'o backends =
  sla_cg :: "'o option \<Rightarrow> backend"
  sla_splu :: backend
  sla_lsqr :: "'o option \<Rightarrow> backend"
  cholesky :: backend
  pyamg_solve :: backend

record 'o kwargs =
  kw_damp :: "bool option"
  kw_external :: "backend option"
  kw_opts :: "'o option"

definition no_kwargs :: "'o kwargs" where
  "no_kwargs = \<lparr>kw_damp = None, kw_external = None, kw_opts = None\<rparr>"

definition solve_lu :: "'o backends \<Rightarrow> interp \<Rightarrow> matrix \<Rightarrow> vec \<Rightarrow> error + vec" where
  "solve_lu bk s A B =
     (case sla_splu bk A B of Inl e \<Rightarrow> Inl e | Inr sol \<Rightarrow> Inr (take (nx s) sol))"

definition solve_lsqr :: "'o backends \<Rightarrow> interp \<Rightarrow> matrix \<Rightarrow> vec \<Rightarrow> 'o option \<Rightarrow> error + vec" where
  "solve_lsqr bk s A B opts = sla_lsqr bk opts A B"

text \<open>\<open>_solve_chol\<close> returns \<open>False\<close>, here \<open>None\<close>, when the import fails.\<close>

definition solve_chol ::
  "'o backends \<Rightarrow> interp \<Rightarrow> matrix \<Rightarrow> vec \<Rightarrow> error + vec option \<times> log_entry list"
where
  "solve_chol bk s A B =
     (case cholesky bk A B of
        Inl ImportError \<Rightarrow>
          Inr (None, [Log Warning ''Scikit Sparse not installed try using cg instead'' []])
      | Inl e \<Rightarrow> Inl e
      | Inr sol \<Rightarrow> Inr (Some (take (nx s) sol), []))"

definition solve_cg :: "'o backends \<Rightarrow> interp \<Rightarrow> matrix \<Rightarrow> vec \<Rightarrow> 'o option \<Rightarrow> error + vec" where
  "solve_cg bk s A B opts =
     (case sla_cg bk opts A B of Inl e \<Rightarrow> Inl e | Inr sol \<Rightarrow> Inr (take (nx s) sol))"

definition solve_pyamg :: "'o backends \<Rightarrow> interp \<Rightarrow> matrix \<Rightarrow> vec \<Rightarrow> error + vec" where
  "solve_pyamg bk s A B =
     (case pyamg_solve bk A B of Inl e \<Rightarrow> Inl e | Inr sol \<Rightarrow> Inr (take (nx s) sol))"

text \<open>
  The chain of \<open>if solver == ...\<close> statements of \<open>_solve\<close>, from the array \<open>c\<close> to the array
  after the assignment \<open>c[region] = ...\<close>. The names are distinct, so at most one
  statement runs; with any other name none does. \<open>False\<close> is stored as 0.
\<close>

definition dispatch ::
  "'o backends \<Rightarrow> interp \<Rightarrow> string \<Rightarrow> 'o kwargs \<Rightarrow> matrix \<Rightarrow> vec \<Rightarrow> vec
     \<Rightarrow> error + vec \<times> log_entry list"
where
  "dispatch bk s name kw A B c =
     (if name = ''cg'' then
        (case solve_cg bk s A B (kw_opts kw) of
           Inl e \<Rightarrow> Inl e
         | Inr x \<Rightarrow>
             (case setitem c (region s) x of
                Inl e \<Rightarrow> Inl e
              | Inr c' \<Rightarrow> Inr (c', [Log Info ''Solving using conjugate gradient'' []])))
      else if name = ''chol'' then
        (case solve_chol bk s A B of
           Inl e \<Rightarrow> Inl e
         | Inr (None, l) \<Rightarrow>
             (case setitem_scalar c (region s) (Num 0) of
                Inl e \<Rightarrow> Inl e
              | Inr c' \<Rightarrow> Inr (c', l))
         | Inr (Some x, l) \<Rightarrow>
             (case setitem c (region s) x of
                Inl e \<Rightarrow> Inl e
              | Inr c' \<Rightarrow> Inr (c', l)))
      else if name = ''lu'' then
        (case solve_lu bk s A B of
           Inl e \<Rightarrow> Inl e
         | Inr x \<Rightarrow>
             (case setitem c (region s) x of
                Inl e \<Rightarrow> Inl e
              | Inr c' \<Rightarrow> Inr (c', [Log Info ''Solving using scipy LU'' []])))
      else if name = ''pyamg'' then
        (case solve_pyamg bk s A B of
           Inl ImportError \<Rightarrow>
             (case solve_cg bk s A B None of
                Inl e \<Rightarrow> Inl e
              | Inr x \<Rightarrow>
                  (case setitem c (region s) x of
                     Inl e \<Rightarrow> Inl e
                   | Inr c' \<Rightarrow>
                       Inr (c', [Log Info ''Solving with pyamg solve'' [],
                                 Log Warning ''Pyamg not installed using cg instead'' []])))
         | Inl e \<Rightarrow> Inl e
         | Inr x \<Rightarrow>
             (case setitem c (region s) x of
                Inl e \<Rightarrow> Inl e
              | Inr c' \<Rightarrow> Inr (c', [Log Info ''Solving with pyamg solve'' []])))
      else if name = ''lsqr'' then
        (case solve_lsqr bk s A B (kw_opts kw) of
           Inl e \<Rightarrow> Inl e
         | Inr x \<Rightarrow>
             (case setitem c (region s) x of
                Inl e \<Rightarrow> Inl e
              | Inr c' \<Rightarrow> Inr (c', [])))
      else if name = ''external'' then
        (case kw_external kw of
           None \<Rightarrow> Inl KeyError
         | Some f \<Rightarrow>
             (case f A B of
                Inl e \<Rightarrow> Inl e
              | Inr sol \<Rightarrow>
                  (case setitem c (region s) (take (nx s) sol) of
                     Inl e \<Rightarrow> Inl e
                   | Inr c' \<Rightarrow> Inr (c', [Log Warning ''Using external solver'' []]))))
      else Inr (c, []))"

text \<open>
  \<open>_solve\<close>: the result array starts as NaN at every node, the system is assembled
  (rectangular for \<open>lsqr\<close>, square otherwise), the chosen backend fills the region, and the
  array is stored on the support. \<open>np.all(self.c == np.nan)\<close> compares with NaN, which
  no element equals, so it holds of the empty array only.
\<close>

definition solve ::
  "'o backends \<Rightarrow> interp \<Rightarrow> string \<Rightarrow> 'o kwargs \<Rightarrow> error + interp \<times> log_entry list"
where
  "solve bk s name kw =
     (let c0 = replicate (n_nodes s) NaN;
          damp = (case kw_damp kw of None \<Rightarrow> True | Some d \<Rightarrow> d)
      in case (if name = ''lsqr'' then build_matrix s False True
               else build_matrix s True damp) of
           Inl e \<Rightarrow> Inl e
         | Inr ((A, B), l0) \<Rightarrow>
             (case dispatch bk s name kw A B c0 of
                Inl e \<Rightarrow> Inl e
              | Inr (c1, l1) \<Rightarrow>
                  (case getitem c1 (region s) of
                     Inl e \<Rightarrow> Inl e
                   | Inr cr \<Rightarrow>
                       Inr (s\<lparr>node_c := c1,
                               properties := (properties s)(propertyname s \<mapsto> c1)\<rparr>,
                            l0 @ l1
                            @ (if c1 = [] then [Log Warning ''Solver not run, no scalar field'' []]
                               else [])
                            @ (if list_all (\<lambda>v. v = Num 0) cr
                               then [Log Warning ''No solution, scalar field 0. Add more data.'' []]
                               else [])))))"

text \<open>
  \<open>update\<close>, with the \<open>setup_interpolator\<close> of the subclass as a parameter. The result is
  Python's return value (\<open>Some False\<close> for \<open>False\<close>, \<open>None\<close> for \<open>None\<close>) with the
  interpolator and the log. A solver attribute that is \<open>None\<close> compares unequal to every
  solver name, as the empty name does.
\<close>

definition update ::
  "'o backends \<Rightarrow> (interp \<Rightarrow> error + interp \<times> log_entry list) \<Rightarrow> interp
     \<Rightarrow> error + bool option \<times> interp \<times> log_entry list"
where
  "update bk setup_interpolator s =
     (if solver s = None then Inr (Some False, s, [Log Debug ''Cannot rerun interpolator'' []])
      else if \<not> up_to_date s then
        (case setup_interpolator s of
           Inl e \<Rightarrow> Inl e
         | Inr (s1, l1) \<Rightarrow>
             (case solve bk s1 (case solver s1 of None \<Rightarrow> [] | Some name \<Rightarrow> name) no_kwargs of
                Inl e \<Rightarrow> Inl e
              | Inr (s2, l2) \<Rightarrow> Inr (None, s2, l1 @ l2)))
      else Inr (None, s, []))"


definition solver_names :: "string list" where
  "solver_names = [''cg'', ''chol'', ''lu'', ''lsqr'', ''pyamg'', ''external'']"

section \<open>Example interpolators\<close>

text \<open>
  A support of three nodes with the region of nodes 0 and 2, and a system of two unknowns
  with two soft rows and one equality row.
\<close>

definition example_region :: interp where
  "example_region = (init 3 ''rectangular'' ''val'')\<lparr>region := [0, 2], nx := 2\<rparr>"

definition example_system :: interp where
  "example_system = (init 2 ''rectangular'' ''val'')
     \<lparr>lsq_c := 2, lsq_A := [1, 2], lsq_row := [0, 1], lsq_col := [0, 1], lsq_B := [5, 6],
      eq_const_C := [1], eq_const_row := [0], eq_const_col := [1], eq_const_d := [Num 3],
      eq_const_c := 1\<rparr>"

text \<open>
  Backends of an installation without scikit-sparse and pyamg. Conjugate gradients
  return the right-hand side itself, the zero vector, when the right-hand side is zero;
  on other systems these example backends give no answer.
\<close>

definition example_backends :: "unit backends" where
  "example_backends =
     \<lparr>sla_cg = (\<lambda>opts A B. if list_all (\<lambda>b. b = Num 0) B then Inr B else Inl BackendError),
      sla_splu = (\<lambda>A B. Inl BackendError),
      sla_lsqr = (\<lambda>opts A B. Inl BackendError),
      cholesky = (\<lambda>A B. Inl ImportError),
      pyamg_solve = (\<lambda>A B. Inl ImportError)\<rparr>"

section \<open>Properties of the constraint accumulator\<close>

lemma numbers_None_iff: "numbers xs = None \<longleftrightarrow> (\<exists>x\<in>set xs. isnan x)"
proof (induction xs)
  case Nil
  show ?case by simp
next
  case (Cons x xs)
  show ?case
  proof (cases x)
    case NaN
    then show ?thesis by simp
  next
    case (Num v)
    with Cons show ?thesis by (cases "numbers xs") auto
  qed
qed

lemma numbers_Some_map: "numbers xs = Some ys \<Longrightarrow> xs = map Num ys"
proof (induction xs arbitrary: ys)
  case Nil
  then show ?case by simp
next
  case (Cons x xs)
  then show ?case by (cases x) (auto split: option.splits)
qed

lemma numbers_map_Num: "numbers (map Num ys) = Some ys"
  by (induction ys) simp_all

text \<open>
  C2. A batch whose coefficient, column-index or right-hand-side array holds a NaN is
  refused as a whole: the call returns without raising, logs one warning, and the
  interpolator (the triplet stores, the right-hand sides and the row counter among its
  fields) is returned as it was.
\<close>

theorem nan_batch_rejected:
  assumes "(\<exists>x\<in>set (flat A). isnan x) \<or> (\<exists>x\<in>set (flat idc). isnan x) \<or> (\<exists>x\<in>set (flat B). isnan x)"
  shows "add_constraints_to_least_squares s A B idc =
           Inr (s, [Log Warning ''Constraints contain nan not adding constraints'' []])"
proof -
  from assms have "numbers (flat A) = None \<or> numbers (flat idc) = None \<or> numbers (flat B) = None"
    by (simp add: numbers_None_iff)
  then show ?thesis
    unfolding add_constraints_to_least_squares_def
    by (auto split: option.splits)
qed

theorem nan_batch_rejected_witness:
  "add_constraints_to_least_squares (init 2 ''rectangular'' ''val'')
      \<lparr>shape = [1, 2], flat = [Num 1, NaN]\<rparr> \<lparr>shape = [1], flat = [Num 3]\<rparr>
      \<lparr>shape = [1, 2], flat = [Num 0, Num 1]\<rparr> =
    Inr (init 2 ''rectangular'' ''val'',
         [Log Warning ''Constraints contain nan not adding constraints'' []])"
  using nan_batch_rejected [of "\<lparr>shape = [1, 2], flat = [Num 1, NaN]\<rparr>"
      "\<lparr>shape = [1, 2], flat = [Num 0, Num 1]\<rparr>" "\<lparr>shape = [1], flat = [Num 3]\<rparr>"
      "init 2 ''rectangular'' ''val''"]
  by simp

subsection \<open>Zero coefficients\<close>

lemma length_tile_rows: "length (tile_rows c nr ncol) = nr * ncol"
  unfolding tile_rows_def by (induction nr) simp_all

lemma nth_tile_rows:
  assumes "p < nr * ncol"
  shows "tile_rows c nr ncol ! p = c + p div ncol"
  using assms
proof (induction nr arbitrary: p)
  case 0
  then show ?case by simp
next
  case (Suc nr)
  have pos: "0 < ncol" using Suc.prems by (cases ncol) simp_all
  have split: "tile_rows c (Suc nr) ncol = tile_rows c nr ncol @ replicate ncol (c + nr)"
    by (simp add: tile_rows_def)
  show ?case
  proof (cases "p < nr * ncol")
    case True
    then show ?thesis
      using Suc.IH [of p] by (simp add: split nth_append length_tile_rows)
  next
    case False
    then have ge: "nr * ncol \<le> p" by simp
    from Suc.prems have lt: "p - nr * ncol < ncol" using ge by simp
    have "p div ncol = nr"
      by (rule div_nat_eqI) (use ge Suc.prems in \<open>simp_all add: mult.commute\<close>)
    then show ?thesis
      using False lt by (simp add: split nth_append length_tile_rows)
  qed
qed

lemma filter_zip_nth:
  assumes "length ys = length xs"
  shows "filter P (zip xs ys) =
           map (\<lambda>p. (xs ! p, ys ! p)) (filter (\<lambda>p. P (xs ! p, ys ! p)) [0..<length xs])"
proof -
  have "zip xs ys = map (\<lambda>p. (xs ! p, ys ! p)) [0..<length xs]"
    by (rule nth_equalityI) (simp_all add: assms)
  then have "filter P (zip xs ys) = filter P (map (\<lambda>p. (xs ! p, ys ! p)) [0..<length xs])"
    by simp
  also have "\<dots> = map (\<lambda>p. (xs ! p, ys ! p)) (filter (\<lambda>p. P (xs ! p, ys ! p)) [0..<length xs])"
    by (simp add: filter_map comp_def)
  finally show ?thesis .
qed

text \<open>
  C3. On a rectangular interpolator, a NaN-free batch of two or three dimensions whose
  column-index array has the size of the coefficient array is added without raising.
  With the entries of the batch numbered \<open>p = 0, 1, ...\<close> in flattened order and \<open>ncol\<close>
  the last dimension, exactly the entries whose coefficient is not zero are appended to
  the triplet stores, in order, each with its coefficient, the row \<open>c_ + p div ncol\<close>
  and its column index; the whole flattened right-hand side is appended to \<open>B\<close>, and the
  row counter advances by the number of rows of the batch.
\<close>

theorem zero_coefficients_stripped:
  assumes rect: "interp_shape s = ''rectangular''"
    and A: "flat A = map Num A'" and B: "flat B = map Num B'" and idc: "flat idc = map Num idc'"
    and dims: "length (shape A) = 2 \<or> length (shape A) = 3"
    and wf: "wf_ndarray A"
    and size: "length idc' = length A'"
  shows "\<exists>s'. add_constraints_to_least_squares s A B idc = Inr (s', [])
    \<and> lsq_A s' = lsq_A s @ map (\<lambda>p. A' ! p) (filter (\<lambda>p. A' ! p \<noteq> 0) [0..<length A'])
    \<and> lsq_row s' = lsq_row s @
         map (\<lambda>p. lsq_c s + p div last (shape A)) (filter (\<lambda>p. A' ! p \<noteq> 0) [0..<length A'])
    \<and> lsq_col s' = lsq_col s @ map (\<lambda>p. idc' ! p) (filter (\<lambda>p. A' ! p \<noteq> 0) [0..<length A'])
    \<and> lsq_B s' = lsq_B s @ B'
    \<and> lsq_c s' = lsq_c s + prod_list (butlast (shape A))"
proof -
  obtain d0 ds where sh: "shape A = d0 # ds"
    using dims by (cases "shape A") auto
  define nr where "nr = (if length (shape A) > 2 then d0 * hd ds else d0)"
  define ncol where "ncol = last (shape A)"
  define rows where "rows = tile_rows (lsq_c s) nr ncol"
  have len: "length A' = prod_list (shape A)"
    using wf A unfolding wf_ndarray_def by (metis length_map)
  have prod: "prod_list (shape A) = nr * ncol" and nr: "nr = prod_list (butlast (shape A))"
  proof -
    show "prod_list (shape A) = nr * ncol"
    proof (cases "length (shape A) = 2")
      case True
      then obtain d1 where "ds = [d1]" using sh by (cases ds) auto
      then show ?thesis using sh True by (simp add: nr_def ncol_def)
    next
      case False
      with dims have "length (shape A) = 3" by simp
      then obtain d1 d2 where "ds = [d1, d2]"
        using sh by (cases ds; cases "tl ds") auto
      then show ?thesis using sh by (simp add: nr_def ncol_def)
    qed
    show "nr = prod_list (butlast (shape A))"
    proof (cases "length (shape A) = 2")
      case True
      then obtain d1 where "ds = [d1]" using sh by (cases ds) auto
      then show ?thesis using sh True by (simp add: nr_def)
    next
      case False
      with dims have "length (shape A) = 3" by simp
      then obtain d1 d2 where "ds = [d1, d2]"
        using sh by (cases ds; cases "tl ds") auto
      then show ?thesis using sh by (simp add: nr_def)
    qed
  qed
  have lrows: "length rows = length A'"
    by (simp add: rows_def length_tile_rows len prod)
  have lz: "length (zip rows idc') = length A'"
    using lrows size by simp
  define keep where "keep = filter (\<lambda>(a, r, c). a \<noteq> 0) (zip A' (zip rows idc'))"
  have keep_eq: "keep = map (\<lambda>p. (A' ! p, zip rows idc' ! p))
                          (filter (\<lambda>p. A' ! p \<noteq> 0) [0..<length A'])"
    unfolding keep_def using filter_zip_nth [OF lz, of "\<lambda>(a, r, c). a \<noteq> 0"]
    by (simp add: case_prod_beta)
  have in_range: "\<And>p. p \<in> set (filter (\<lambda>p. A' ! p \<noteq> 0) [0..<length A']) \<Longrightarrow> p < length A'"
    by simp
  have k1: "map fst keep = map (\<lambda>p. A' ! p) (filter (\<lambda>p. A' ! p \<noteq> 0) [0..<length A'])"
    by (simp add: keep_eq comp_def)
  have k2: "map (fst \<circ> snd) keep =
              map (\<lambda>p. lsq_c s + p div ncol) (filter (\<lambda>p. A' ! p \<noteq> 0) [0..<length A'])"
  proof -
    have "fst (zip rows idc' ! p) = lsq_c s + p div ncol" if p: "p < length A'" for p
    proof -
      from p have "p < nr * ncol" using len prod by simp
      then have "rows ! p = lsq_c s + p div ncol"
        unfolding rows_def by (rule nth_tile_rows)
      then show ?thesis using p lrows size by simp
    qed
    then show ?thesis unfolding keep_eq by (simp add: comp_def)
  qed
  have k3: "map (snd \<circ> snd) keep = map (\<lambda>p. idc' ! p) (filter (\<lambda>p. A' ! p \<noteq> 0) [0..<length A'])"
    unfolding keep_eq using lrows size by (simp add: comp_def)
  have nums: "numbers (flat idc) = Some idc'" "numbers (flat A) = Some A'"
    "numbers (flat B) = Some B'"
    using A B idc by (simp_all add: numbers_map_Num)
  have run: "add_constraints_to_least_squares s A B idc =
      Inr (s\<lparr>lsq_c := lsq_c s + nr, lsq_A := lsq_A s @ map fst keep,
             lsq_row := lsq_row s @ map (fst \<circ> snd) keep,
             lsq_col := lsq_col s @ map (snd \<circ> snd) keep,
             lsq_B := lsq_B s @ B'\<rparr>, [])"
    using rect lrows size
    unfolding add_constraints_to_least_squares_def keep_def rows_def nr_def ncol_def
    by (simp add: nums sh Let_def)
  show ?thesis
    using run k1 k2 k3 nr by (simp add: ncol_def)
qed

theorem zero_coefficients_stripped_witness:
  "\<exists>s'. add_constraints_to_least_squares (init 2 ''rectangular'' ''val'')
          \<lparr>shape = [2, 2], flat = [Num 1, Num 0, Num 0, Num 2]\<rparr>
          \<lparr>shape = [2], flat = [Num 5, Num 6]\<rparr>
          \<lparr>shape = [2, 2], flat = [Num 0, Num 1, Num 0, Num 1]\<rparr> = Inr (s', [])
     \<and> lsq_A s' = [1, 2] \<and> lsq_row s' = [0, 1] \<and> lsq_col s' = [0, 1]
     \<and> lsq_B s' = [5, 6] \<and> lsq_c s' = 2"
proof -
  let ?s = "init 2 ''rectangular'' ''val''"
  let ?A = "\<lparr>shape = [2, 2], flat = [Num 1, Num 0, Num 0, Num (2::real)]\<rparr>"
  let ?B = "\<lparr>shape = [2], flat = [Num 5, Num (6::real)]\<rparr>"
  let ?idc = "\<lparr>shape = [2, 2], flat = [Num 0, Num 1, Num 0, Num (1::int)]\<rparr>"
  have pos: "[0..<4] = [0, 1, 2, 3::nat]"
    by (simp add: upt_rec)
  have "\<exists>s'. add_constraints_to_least_squares ?s ?A ?B ?idc = Inr (s', [])
    \<and> lsq_A s' = lsq_A ?s @ map (\<lambda>p. [1, 0, 0, 2] ! p)
          (filter (\<lambda>p. [1, 0, 0, 2 :: real] ! p \<noteq> 0) [0..<length [1, 0, 0, 2 :: real]])
    \<and> lsq_row s' = lsq_row ?s @ map (\<lambda>p. lsq_c ?s + p div last (shape ?A))
          (filter (\<lambda>p. [1, 0, 0, 2 :: real] ! p \<noteq> 0) [0..<length [1, 0, 0, 2 :: real]])
    \<and> lsq_col s' = lsq_col ?s @ map (\<lambda>p. [0, 1, 0, 1] ! p)
          (filter (\<lambda>p. [1, 0, 0, 2 :: real] ! p \<noteq> 0) [0..<length [1, 0, 0, 2 :: real]])
    \<and> lsq_B s' = lsq_B ?s @ [5, 6]
    \<and> lsq_c s' = lsq_c ?s + prod_list (butlast (shape ?A))"
    by (rule zero_coefficients_stripped) (simp_all add: init_def wf_ndarray_def)
  then show ?thesis
    by (auto simp add: init_def pos)
qed

subsection \<open>Equality constraints\<close>

lemma fold_update_length:
  "length (fold (\<lambda>(i, v) a. a[i := v]) ps x) = length x"
  by (induction ps arbitrary: x) (simp_all add: case_prod_beta)

lemma region_local_Cons:
  "region_local (i # r) j = (if i = j then 0 else Suc (region_local r j))"
  by (simp add: region_local_def)

lemma fold_update_nth:
  assumes "distinct idx" and "length vals = length idx" and "j < length x"
  shows "fold (\<lambda>(i, v) a. a[i := v]) (zip idx vals) x ! j =
           (if j \<in> set idx then vals ! region_local idx j else x ! j)"
  using assms
proof (induction idx arbitrary: vals x)
  case Nil
  then show ?case by simp
next
  case (Cons i idx)
  then obtain v vs where vals: "vals = v # vs" by (cases vals) auto
  have d: "distinct idx" and ni: "i \<notin> set idx" using Cons.prems by auto
  have l: "length vs = length idx" using Cons.prems vals by simp
  have j: "j < length (x[i := v])" using Cons.prems by simp
  have step: "fold (\<lambda>(i, v) a. a[i := v]) (zip (i # idx) vals) x ! j =
        (if j \<in> set idx then vs ! region_local idx j else x[i := v] ! j)"
    using Cons.IH [OF d l j] by (simp add: vals)
  show ?case
  proof (cases "j = i")
    case True
    then show ?thesis using step ni Cons.prems by (simp add: vals region_local_Cons)
  next
    case False
    then show ?thesis using step by (auto simp: vals region_local_Cons)
  qed
qed

lemma region_local_less: "j \<in> set r \<Longrightarrow> region_local r j < length r"
  unfolding region_local_def by (induction r) auto

lemma nth_region_local: "j \<in> set r \<Longrightarrow> r ! region_local r j = j"
  unfolding region_local_def by (induction r) auto

lemma norm_indices_in_range:
  assumes "\<forall>i\<in>set ix. 0 \<le> i \<and> i < int n"
  shows "norm_indices n ix = Some (map nat ix)"
  using assms by (induction ix) (simp_all add: norm_index_def)

lemma compress_map:
  "length ys = length xs \<Longrightarrow>
     compress (map P xs) ys = map snd (filter (\<lambda>(a, b). P a) (zip xs ys))"
proof (induction xs arbitrary: ys)
  case Nil
  then show ?case by (simp add: compress_def)
next
  case (Cons x xs)
  then obtain y yt where "ys = y # yt" by (cases ys) auto
  with Cons show ?case by (simp add: compress_def)
qed

lemma compress_map_map:
  "compress (map P xs) (map f xs) = map f (filter P xs)"
  by (induction xs) (simp_all add: compress_def)

lemma gi_region:
  assumes "region_ok s"
  shows "\<exists>gi. setitem (replicate (n_nodes s) (- 1)) (region s) (map int [0..<nx s]) = Inr gi
     \<and> length gi = n_nodes s
     \<and> (\<forall>j<n_nodes s. gi ! j =
           (if j \<in> set (region s) then int (region_local (region s) j) else - 1))"
proof -
  from assms have d: "distinct (region s)" and r: "\<forall>i\<in>set (region s). i < n_nodes s"
    and n: "nx s = length (region s)"
    by (simp_all add: region_ok_def list_all_iff)
  let ?gi = "fold (\<lambda>(i, v) a. a[i := v]) (zip (region s) (map int [0..<nx s])) (replicate (n_nodes s) (- 1))"
  have run: "setitem (replicate (n_nodes s) (- 1)) (region s) (map int [0..<nx s]) = Inr ?gi"
    using r n by (auto simp: setitem_def)
  have "?gi ! j = (if j \<in> set (region s) then int (region_local (region s) j) else - 1)"
    if j: "j < n_nodes s" for j
  proof -
    have "?gi ! j = (if j \<in> set (region s) then map int [0..<nx s] ! region_local (region s) j
                     else replicate (n_nodes s) (- 1) ! j)"
      by (rule fold_update_nth) (use d n j in \<open>simp_all\<close>)
    then show ?thesis using j n by (simp add: region_local_less)
  qed
  then show ?thesis using run by (simp add: fold_update_length)
qed

lemma add_equality_constraints_result:
  assumes reg: "region_ok s"
    and idx: "\<forall>i\<in>set node_idx. 0 \<le> i \<and> i < int (n_nodes s)"
    and len: "length vals = length node_idx"
  shows "add_equality_constraints s node_idx (NdArray vals) =
     (let kept = filter (\<lambda>(i, v). nat i \<in> set (region s)) (zip node_idx vals) in
      Inr (s\<lparr>eq_const_C := eq_const_C s @ replicate (length kept) 1,
             eq_const_col := eq_const_col s @
               map (\<lambda>(i, v). int (region_local (region s) (nat i))) kept,
             eq_const_row := eq_const_row s @ [0..<length kept],
             eq_const_d := eq_const_d s @ map snd kept,
             eq_const_c := eq_const_c s + length kept\<rparr>))"
proof -
  from gi_region [OF reg] obtain gi where
    gi: "setitem (replicate (n_nodes s) (- 1)) (region s) (map int [0..<nx s]) = Inr gi"
    and lgi: "length gi = n_nodes s"
    and nth: "\<And>j. j < n_nodes s \<Longrightarrow> gi ! j =
           (if j \<in> set (region s) then int (region_local (region s) j) else - 1)"
    by blast
  have ni: "norm_indices (length gi) node_idx = Some (map nat node_idx)"
    using idx lgi by (simp add: norm_indices_in_range)
  define inreg where "inreg = (\<lambda>i::int. nat i \<in> set (region s))"
  define loc where "loc = (\<lambda>i::int. int (region_local (region s) (nat i)))"
  have idc: "map (\<lambda>j. gi ! j) (map nat node_idx) = map (\<lambda>i. if inreg i then loc i else - 1) node_idx"
    using idx nth by (auto simp: inreg_def loc_def)
  have out: "map (\<lambda>v. \<not> (v = - 1)) (map (\<lambda>i. if inreg i then loc i else - 1) node_idx)
               = map inreg node_idx"
    by (auto simp: loc_def)
  define kept where "kept = filter (\<lambda>(i, v). inreg i) (zip node_idx vals)"
  have c1: "compress (map inreg node_idx) (map (\<lambda>i. if inreg i then loc i else - 1) node_idx)
              = map (\<lambda>(i, v). loc i) kept"
  proof -
    have "compress (map inreg node_idx) (map (\<lambda>i. if inreg i then loc i else - 1) node_idx)
            = map (\<lambda>i. if inreg i then loc i else - 1) (filter inreg node_idx)"
      by (rule compress_map_map)
    also have "\<dots> = map loc (filter inreg node_idx)" by simp
    also have "\<dots> = map (\<lambda>(i, v). loc i) kept"
      unfolding kept_def using len
    proof (induction node_idx arbitrary: vals)
      case Nil
      then show ?case by simp
    next
      case (Cons i ix)
      then obtain v vs where "vals = v # vs" by (cases "vals") auto
      with Cons show ?case by simp
    qed
    finally show ?thesis .
  qed
  have c2: "compress (map inreg node_idx) vals = map snd kept"
    unfolding kept_def by (rule compress_map) (rule len)
  have run: "add_equality_constraints s node_idx (NdArray vals) =
      Inr (s\<lparr>eq_const_C := eq_const_C s @ replicate (length kept) 1,
             eq_const_col := eq_const_col s @ map (\<lambda>(i, v). loc i) kept,
             eq_const_row := eq_const_row s @ [0..<length kept],
             eq_const_d := eq_const_d s @ map snd kept,
             eq_const_c := eq_const_c s + length kept\<rparr>)"
    unfolding add_equality_constraints_def
    by (simp add: gi ni Let_def idc out c1 c2 len del: map_map)
  then show ?thesis
    unfolding kept_def loc_def inreg_def by (simp add: Let_def)
qed

text \<open>
  On the example region, with the values in an array, the call adds the two retained
  entries and leaves out the node outside the region.
\<close>

lemma add_equality_constraints_array_example:
  "add_equality_constraints example_region [2, 1, 0] (NdArray [Num 5, Num 6, Num 7]) =
     Inr (example_region\<lparr>eq_const_C := [1, 1], eq_const_col := [1, 0], eq_const_row := [0, 1],
            eq_const_d := [Num 5, Num 7], eq_const_c := 2\<rparr>)"
proof -
  have ok: "region_ok example_region"
    by (simp add: region_ok_def example_region_def init_def)
  have idx: "\<forall>i\<in>set [2, 1, 0 :: int]. 0 \<le> i \<and> i < int (n_nodes example_region)"
    by (simp add: example_region_def init_def)
  have len: "length [Num 5, Num 6, Num (7::real)] = length [2, 1, 0 :: int]"
    by simp
  have r: "[0..<2] = [0, 1 :: nat]" by (simp add: upt_rec)
  show ?thesis
    using add_equality_constraints_result [OF ok idx len]
    by (simp add: example_region_def init_def region_local_def r)
qed

text \<open>
  With the values in a Python list, the call raises for every region of distinct nodes
  and all node indices of the support: the coefficient, column and row stores have
  grown by the retained entries, and no target is stored and the equality row counter
  stays.
\<close>

lemma add_equality_constraints_list:
  assumes reg: "region_ok s"
    and idx: "\<forall>i\<in>set node_idx. 0 \<le> i \<and> i < int (n_nodes s)"
  shows "add_equality_constraints s node_idx (PyList vals) =
     (let kept = filter (\<lambda>i. nat i \<in> set (region s)) node_idx in
      Inl (TypeError,
           s\<lparr>eq_const_C := eq_const_C s @ replicate (length kept) 1,
             eq_const_col := eq_const_col s @
               map (\<lambda>i. int (region_local (region s) (nat i))) kept,
             eq_const_row := eq_const_row s @ [0..<length kept]\<rparr>))"
proof -
  from gi_region [OF reg] obtain gi where
    gi: "setitem (replicate (n_nodes s) (- 1)) (region s) (map int [0..<nx s]) = Inr gi"
    and lgi: "length gi = n_nodes s"
    and nth: "\<And>j. j < n_nodes s \<Longrightarrow> gi ! j =
           (if j \<in> set (region s) then int (region_local (region s) j) else - 1)"
    by blast
  have ni: "norm_indices (length gi) node_idx = Some (map nat node_idx)"
    using idx lgi by (simp add: norm_indices_in_range)
  define inreg where "inreg = (\<lambda>i::int. nat i \<in> set (region s))"
  define loc where "loc = (\<lambda>i::int. int (region_local (region s) (nat i)))"
  have idc: "map (\<lambda>j. gi ! j) (map nat node_idx) = map (\<lambda>i. if inreg i then loc i else - 1) node_idx"
    using idx nth by (auto simp: inreg_def loc_def)
  have out: "map (\<lambda>v. \<not> (v = - 1)) (map (\<lambda>i. if inreg i then loc i else - 1) node_idx)
               = map inreg node_idx"
    by (auto simp: loc_def)
  have c1: "compress (map inreg node_idx) (map (\<lambda>i. if inreg i then loc i else - 1) node_idx)
              = map loc (filter inreg node_idx)"
  proof -
    have "compress (map inreg node_idx) (map (\<lambda>i. if inreg i then loc i else - 1) node_idx)
            = map (\<lambda>i. if inreg i then loc i else - 1) (filter inreg node_idx)"
      by (rule compress_map_map)
    also have "\<dots> = map loc (filter inreg node_idx)" by simp
    finally show ?thesis .
  qed
  have run: "add_equality_constraints s node_idx (PyList vals) =
      Inl (TypeError,
           s\<lparr>eq_const_C := eq_const_C s @ replicate (length (filter inreg node_idx)) 1,
             eq_const_col := eq_const_col s @ map loc (filter inreg node_idx),
             eq_const_row := eq_const_row s @ [0..<length (filter inreg node_idx)]\<rparr>)"
    unfolding add_equality_constraints_def
    by (simp add: gi ni Let_def idc out c1 del: map_map)
  then show ?thesis
    unfolding loc_def inreg_def by (simp add: Let_def)
qed

text \<open>
  C4. With the values in an array, every call stores the retained entries with their
  targets and advances the equality row counter, as shown above. With the values in a
  Python list, which the docstring allows, it does not: on the example region, with
  node indices 2, 1, 0 and the list of values 5, 6, 7, the call raises \<open>TypeError\<close>.
  The retained nodes 2 and 0 have their coefficients, columns and rows stored, but no
  target is stored and the equality row counter is not advanced.
\<close>

theorem equality_constraints_list_raises:
  "add_equality_constraints example_region [2, 1, 0] (PyList [Num 5, Num 6, Num 7]) =
     Inl (TypeError,
          example_region\<lparr>eq_const_C := [1, 1], eq_const_col := [1, 0],
            eq_const_row := [0, 1]\<rparr>)"
  by (simp add: add_equality_constraints_def setitem_def norm_index_def compress_def
      example_region_def init_def Let_def upt_rec numeral_2_eq_2 numeral_3_eq_3)

subsection \<open>Invariants of the accumulator\<close>

text \<open>
  The constructor and \<open>set_region\<close> give a region of distinct nodes of the support;
  well-formed equality stores stay so under \<open>add_equality_constraints\<close>, and well-formed
  soft-constraint stores stay so under \<open>add_constraints_to_least_squares\<close> when the
  column indices of the batch are among the \<open>nx\<close> unknowns.
\<close>

lemma region_ok_init: "region_ok (init n shp pname)"
  by (simp add: region_ok_def init_def list_all_iff)

lemma region_ok_set_region:
  assumes "set_region s m = Inr s'"
  shows "region_ok s'"
  using assms
  by (auto simp: set_region_def region_ok_def mask_indices_def list_all_iff split: if_splits)

lemma eq_wf_add_equality_constraints:
  assumes reg: "region_ok s" and wf: "eq_wf s"
    and idx: "\<forall>i\<in>set node_idx. 0 \<le> i \<and> i < int (n_nodes s)"
    and len: "length vals = length node_idx"
    and run: "add_equality_constraints s node_idx (NdArray vals) = Inr s'"
  shows "eq_wf s'"
proof -
  define kept where "kept = filter (\<lambda>(i, v). nat i \<in> set (region s)) (zip node_idx vals)"
  have s': "s' = s\<lparr>eq_const_C := eq_const_C s @ replicate (length kept) 1,
             eq_const_col := eq_const_col s @
               map (\<lambda>(i, v). int (region_local (region s) (nat i))) kept,
             eq_const_row := eq_const_row s @ [0..<length kept],
             eq_const_d := eq_const_d s @ map snd kept,
             eq_const_c := eq_const_c s + length kept\<rparr>"
    using add_equality_constraints_result [OF reg idx len] run by (simp add: Let_def kept_def)
  have n: "nx s = length (region s)" using reg by (simp add: region_ok_def)
  have col: "0 \<le> int (region_local (region s) (nat i)) \<and>
             int (region_local (region s) (nat i)) < int (nx s)" if "(i, v) \<in> set kept" for i v
    using that n by (auto simp: kept_def region_local_less)
  show ?thesis
    using wf col unfolding s' eq_wf_def list_all_iff by (auto simp: less_imp_le trans_less_add1)
qed

lemma set_tile_rows: "r \<in> set (tile_rows c nr ncol) \<Longrightarrow> r < c + nr"
  by (auto simp: tile_rows_def)

lemma keep_rows:
  assumes "r \<in> set (map (fst \<circ> snd) (filter P (zip xs (zip rows cols))))"
  shows "r \<in> set rows"
proof -
  from assms obtain a c where "(a, r, c) \<in> set (zip xs (zip rows cols))" by auto
  then have "(r, c) \<in> set (zip rows cols)" by (rule set_zip_rightD)
  then show ?thesis by (rule set_zip_leftD)
qed

lemma keep_cols:
  assumes "c \<in> set (map (snd \<circ> snd) (filter P (zip xs (zip rows cols))))"
  shows "c \<in> set cols"
proof -
  from assms obtain a r where "(a, r, c) \<in> set (zip xs (zip rows cols))" by auto
  then have "(r, c) \<in> set (zip rows cols)" by (rule set_zip_rightD)
  then show ?thesis by (rule set_zip_rightD)
qed

lemma keep_lengths:
  "length (map (fst \<circ> snd) (filter P ts)) = length (map fst (filter P ts))"
  "length (map (snd \<circ> snd) (filter P ts)) = length (map fst (filter P ts))"
  by simp_all

lemma lsq_wf_add_constraints:
  assumes wf: "lsq_wf s"
    and run: "add_constraints_to_least_squares s A B idc = Inr (s', lg)"
    and cols: "\<forall>x\<in>set (flat idc). \<forall>c. x = Num c \<longrightarrow> 0 \<le> c \<and> c < int (nx s)"
  shows "lsq_wf s'"
proof (cases "numbers (flat idc)")
  case None
  with run have "s' = s"
    by (auto simp: add_constraints_to_least_squares_def)
  with wf show ?thesis by simp
next
  case (Some idc')
  then have idc: "flat idc = map Num idc'" by (rule numbers_Some_map)
  have c: "0 \<le> c \<and> c < int (nx s)" if "c \<in> set idc'" for c
    using cols that unfolding idc by auto
  from wf have w: "length (lsq_row s) = length (lsq_A s)" "length (lsq_col s) = length (lsq_A s)"
    "\<And>r. r \<in> set (lsq_row s) \<Longrightarrow> r < lsq_c s"
    "\<And>c. c \<in> set (lsq_col s) \<Longrightarrow> 0 \<le> c \<and> c < int (nx s)"
    by (auto simp: lsq_wf_def list_all_iff)
  consider (same) "s' = s"
    | (count) nr where "s' = s\<lparr>lsq_c := lsq_c s + nr\<rparr>"
    | (rect) nr ncol A' B' P where
        "s' = s\<lparr>lsq_c := lsq_c s + nr,
                lsq_A := lsq_A s @ map fst (filter P (zip A' (zip (tile_rows (lsq_c s) nr ncol) idc'))),
                lsq_row := lsq_row s @ map (fst \<circ> snd) (filter P (zip A' (zip (tile_rows (lsq_c s) nr ncol) idc'))),
                lsq_col := lsq_col s @ map (snd \<circ> snd) (filter P (zip A' (zip (tile_rows (lsq_c s) nr ncol) idc'))),
                lsq_B := lsq_B s @ B'\<rparr>"
    using run Some unfolding add_constraints_to_least_squares_def
    by (auto simp: Let_def split: option.splits list.splits if_splits)
  then show ?thesis
  proof cases
    case same
    with wf show ?thesis by simp
  next
    case count
    then show ?thesis
      using w by (auto simp: lsq_wf_def list_all_iff intro: trans_less_add1)
  next
    case rect
    show ?thesis
      unfolding rect lsq_wf_def list_all_iff
      using w c
      by (auto simp del: map_map set_map simp: keep_lengths
          dest!: keep_rows keep_cols dest: set_tile_rows intro: trans_less_add1)
  qed
qed

section \<open>Properties of the assembly\<close>

lemma coo_matrix_wf:
  assumes "length rows = length vals" and "length cols = length vals"
    and "list_all (\<lambda>r. r < m) rows" and "list_all (\<lambda>c. 0 \<le> c \<and> c < int n) cols"
  shows "coo_matrix vals rows cols m n = Inr \<lparr>nrows = m, ncols = n, ent = coo_entry vals rows cols\<rparr>"
  using assms unfolding coo_matrix_def list_all_iff by (auto simp: not_le)

text \<open>
  C5. With \<open>square\<close> false, the assembled system is the matrix of the soft-constraint
  triplets, of shape \<open>c_\<close> by \<open>nx\<close>, and the accumulated right-hand sides; one more log
  record says that the equality constraints are not used, and replacing the equality
  stores and counter by any others leaves the result as it is.
\<close>

theorem rectangular_assembly:
  assumes "lsq_wf s"
  shows "build_matrix s False damp =
           Inr ((\<lparr>nrows = lsq_c s, ncols = nx s,
                  ent = coo_entry (lsq_A s) (lsq_row s) (lsq_col s)\<rparr>, map Num (lsq_B s)),
                [Log Info ''Interpolation matrix is %i x %i'' [lsq_c s, nx s],
                 Log Info ''Using rectangular matrix, equality constraints are not used'' []])
       \<and> build_matrix (s\<lparr>eq_const_C := C, eq_const_row := r, eq_const_col := cl,
                          eq_const_d := d, eq_const_c := k\<rparr>) False damp'
           = build_matrix s False damp"
proof -
  have "coo_matrix (lsq_A s) (lsq_row s) (lsq_col s) (lsq_c s) (nx s) =
          Inr \<lparr>nrows = lsq_c s, ncols = nx s, ent = coo_entry (lsq_A s) (lsq_row s) (lsq_col s)\<rparr>"
    using assms unfolding lsq_wf_def by (intro coo_matrix_wf) simp_all
  then show ?thesis
    by (simp add: build_matrix_def)
qed

theorem rectangular_assembly_witness:
  "lsq_wf example_system \<and>
   build_matrix example_system False True =
     Inr ((\<lparr>nrows = 2, ncols = 2, ent = coo_entry [1, 2] [0, 1] [0, 1]\<rparr>, [Num 5, Num 6]),
          [Log Info ''Interpolation matrix is %i x %i'' [2, 2],
           Log Info ''Using rectangular matrix, equality constraints are not used'' []]) \<and>
   build_matrix (example_system\<lparr>eq_const_C := [], eq_const_row := [], eq_const_col := [],
                                 eq_const_d := [], eq_const_c := 0\<rparr>) False True =
     build_matrix example_system False True"
proof -
  have wf: "lsq_wf example_system"
    by (simp add: lsq_wf_def example_system_def init_def)
  show ?thesis
    using wf rectangular_assembly [OF wf, where damp = True and C = "[]" and r = "[]"
        and cl = "[]" and d = "[]" and k = 0 and damp' = True]
    by (simp add: example_system_def init_def)
qed

text \<open>
  C1. With \<open>square\<close> true and \<open>k > 0\<close> equality rows, the assembled matrix has shape
  \<open>(nx + k, nx + k)\<close>. Its leading block is the product of the transposed soft-constraint
  matrix with that matrix, its border is the equality block and its transpose, and its
  lower-right block is zero; damping adds \<open>eps\<close> on the diagonal and nothing else. The
  right-hand side is the transposed matrix applied to \<open>B\<close>, followed by the targets.
\<close>

theorem square_assembly:
  assumes lsq: "lsq_wf s" and B: "length (lsq_B s) = lsq_c s"
    and eq: "eq_wf s" and k: "0 < eq_const_c s"
  shows "\<exists>M v lg. build_matrix s True damp = Inr ((M, v), lg)
    \<and> nrows M = nx s + eq_const_c s \<and> ncols M = nx s + eq_const_c s
    \<and> length v = nx s + eq_const_c s
    \<and> v = map (\<lambda>i. Num (\<Sum>r<lsq_c s. coo_entry (lsq_A s) (lsq_row s) (lsq_col s) r i * lsq_B s ! r))
              [0..<nx s] @ eq_const_d s
    \<and> (\<forall>i<nx s + eq_const_c s. \<forall>j<nx s + eq_const_c s.
          ent M i j =
            (if i < nx s \<and> j < nx s then
               (\<Sum>r<lsq_c s. coo_entry (lsq_A s) (lsq_row s) (lsq_col s) r i
                              * coo_entry (lsq_A s) (lsq_row s) (lsq_col s) r j)
             else if i < nx s then
               coo_entry (eq_const_C s) (eq_const_row s) (eq_const_col s) (j - nx s) i
             else if j < nx s then
               coo_entry (eq_const_C s) (eq_const_row s) (eq_const_col s) (i - nx s) j
             else 0)
            + (if damp \<and> i = j then float_eps else 0))"
proof -
  have A: "coo_matrix (lsq_A s) (lsq_row s) (lsq_col s) (lsq_c s) (nx s) =
          Inr \<lparr>nrows = lsq_c s, ncols = nx s, ent = coo_entry (lsq_A s) (lsq_row s) (lsq_col s)\<rparr>"
    using lsq unfolding lsq_wf_def by (intro coo_matrix_wf) simp_all
  have C: "coo_matrix (eq_const_C s) (eq_const_row s) (eq_const_col s) (eq_const_c s) (nx s) =
          Inr \<lparr>nrows = eq_const_c s, ncols = nx s,
               ent = coo_entry (eq_const_C s) (eq_const_row s) (eq_const_col s)\<rparr>"
    using eq unfolding eq_wf_def by (intro coo_matrix_wf) simp_all
  have d: "length (eq_const_d s) = eq_const_c s"
    using eq by (simp add: eq_wf_def)
  show ?thesis
    using k B d
    by (cases damp)
       (simp_all add: build_matrix_def A C dot_mm_def dot_mv_def transpose_m_def bmat_def
          add_eye_def o_def)
qed

theorem square_assembly_witness:
  "lsq_wf example_system \<and> length (lsq_B example_system) = lsq_c example_system \<and>
   eq_wf example_system \<and> 0 < eq_const_c example_system \<and>
   (\<exists>M v lg. build_matrix example_system True False = Inr ((M, v), lg)
      \<and> nrows M = 3 \<and> ncols M = 3 \<and> v = [Num 5, Num 12, Num 3]
      \<and> ent M 0 0 = 1 \<and> ent M 1 1 = 4 \<and> ent M 0 1 = 0
      \<and> ent M 2 1 = 1 \<and> ent M 1 2 = 1 \<and> ent M 2 0 = 0 \<and> ent M 2 2 = 0)"
proof -
  have wf: "lsq_wf example_system"
    by (simp add: lsq_wf_def example_system_def init_def)
  have B: "length (lsq_B example_system) = lsq_c example_system"
    by (simp add: example_system_def init_def)
  have eq: "eq_wf example_system"
    by (simp add: eq_wf_def example_system_def init_def)
  have k: "0 < eq_const_c example_system"
    by (simp add: example_system_def init_def)
  have flds: "nx example_system = 2" "eq_const_c example_system = 1" "lsq_c example_system = 2"
    "lsq_A example_system = [1, 2]" "lsq_row example_system = [0, 1]"
    "lsq_col example_system = [0, 1]" "lsq_B example_system = [5, 6]"
    "eq_const_C example_system = [1]" "eq_const_row example_system = [0]"
    "eq_const_col example_system = [1]" "eq_const_d example_system = [Num 3]"
    by (simp_all add: example_system_def init_def)
  have two: "{..<2::nat} = {0, 1}" by auto
  have r: "[0..<2] = [0, 1 :: nat]" by (simp add: upt_rec)
  from square_assembly [OF wf B eq k, of False] obtain M v lg where
    run: "build_matrix example_system True False = Inr ((M, v), lg)"
    and sh: "nrows M = 3" "ncols M = 3"
    and v: "v = [Num 5, Num 12, Num 3]"
    and M: "\<And>i j. i < 3 \<Longrightarrow> j < 3 \<Longrightarrow> ent M i j =
            (if i < 2 \<and> j < 2 then
               (\<Sum>r<2. coo_entry [1, 2] [0, 1] [0, 1] r i * coo_entry [1, 2] [0, 1] [0, 1] r j)
             else if i < 2 then coo_entry [1] [0] [1] (j - 2) i
             else if j < 2 then coo_entry [1] [0] [1] (i - 2) j
             else 0)"
    unfolding flds by (auto simp: two r coo_entry_def)
  have "ent M 0 0 = 1" "ent M 1 1 = 4" "ent M 0 1 = 0" "ent M 2 1 = 1" "ent M 1 2 = 1"
    "ent M 2 0 = 0" "ent M 2 2 = 0"
    by (simp_all add: M two coo_entry_def)
  with wf B eq k run sh v show ?thesis by blast
qed

section \<open>Properties of the solve\<close>


lemma fold_scalar_nth:
  "j < length x \<Longrightarrow> fold (\<lambda>i a. a[i := v]) idx x ! j = (if j \<in> set idx then v else x ! j)"
proof (induction idx arbitrary: x)
  case Nil
  then show ?case by simp
next
  case (Cons i idx)
  have "j < length (x[i := v])" using Cons.prems by simp
  from Cons.IH [OF this] show ?case
    using Cons.prems by (auto simp: nth_list_update)
qed



lemma setitem_scalar_nth:
  "setitem_scalar c idx v = Inr c' \<Longrightarrow> j < length c \<Longrightarrow>
     c' ! j = (if j \<in> set idx then v else c ! j)"
  by (auto simp: setitem_scalar_def fold_scalar_nth split: if_splits)








lemmas eval_defs = solve_def build_matrix_def coo_matrix_def dot_mm_def dot_mv_def
  transpose_m_def add_eye_def bmat_def dispatch_def solve_cg_def solve_chol_def solve_lu_def
  solve_pyamg_def solve_lsqr_def setitem_def setitem_scalar_def getitem_def
  example_backends_def example_region_def example_system_def init_def no_kwargs_def Let_def


text \<open>
  C10. With no solver stored, \<open>update\<close> returns \<open>False\<close> after one debug record: nothing
  is assembled or solved, and the interpolator is returned as it was.
\<close>

theorem update_without_solver:
  assumes "solver s = None"
  shows "update bk setup_interpolator s =
           Inr (Some False, s, [Log Debug ''Cannot rerun interpolator'' []])"
  using assms by (simp add: update_def)

theorem update_without_solver_witness:
  "solver (init 2 ''rectangular'' ''val'') = None \<and>
   update example_backends (\<lambda>s. Inr (s, [])) (init 2 ''rectangular'' ''val'') =
     Inr (Some False, init 2 ''rectangular'' ''val'',
          [Log Debug ''Cannot rerun interpolator'' []])"
proof -
  have h: "solver (init 2 ''rectangular'' ''val'') = None" by (simp add: init_def)
  from update_without_solver [OF h] h show ?thesis by simp
qed

text \<open>
  C9, as stated, fails: the solver name \<open>newton\<close> raises nothing. The system is
  assembled, no backend runs and the array of NaN is stored.
\<close>

theorem unknown_solver_counterexample:
  "solve example_backends (init 2 ''rectangular'' ''val'') ''newton'' no_kwargs =
     Inr ((init 2 ''rectangular'' ''val'')
            \<lparr>node_c := [NaN, NaN], properties := [''val'' \<mapsto> [NaN, NaN]]\<rparr>,
          [Log Info ''Interpolation matrix is %i x %i'' [0, 2],
           Log Info ''Adding eps to matrix diagonal'' []])"
  by (simp add: eval_defs upt_rec numeral_2_eq_2)

text \<open>
  C9, amended. A solver name outside \<open>cg\<close>, \<open>chol\<close>, \<open>lu\<close>, \<open>lsqr\<close>, \<open>pyamg\<close>,
  \<open>external\<close> is no error: when the square assembly succeeds and the region indexes the
  support, \<open>_solve\<close> returns, no backend has run, and the array stored on the support is
  NaN at every node.
\<close>

theorem unknown_solver_publishes_nan:
  assumes name: "name \<notin> set solver_names"
    and sys: "build_matrix s True (case kw_damp kw of None \<Rightarrow> True | Some d \<Rightarrow> d) = Inr (sys, l0)"
    and reg: "list_all (\<lambda>i. i < n_nodes s) (region s)"
  shows "\<exists>lg. solve bk s name kw =
           Inr (s\<lparr>node_c := replicate (n_nodes s) NaN,
                  properties := (properties s)(propertyname s \<mapsto> replicate (n_nodes s) NaN)\<rparr>,
                lg)"
proof -
  obtain A B where AB: "sys = (A, B)" by (cases sys)
  have d: "dispatch bk s name kw A B c = Inr (c, [])" for c
    using name by (simp add: dispatch_def solver_names_def)
  have g: "getitem (replicate (n_nodes s) NaN) (region s) =
             Inr (map (\<lambda>i. replicate (n_nodes s) NaN ! i) (region s))"
    using reg by (auto simp: getitem_def list_all_iff not_le)
  have "name \<noteq> ''lsqr''" using name by (simp add: solver_names_def)
  then show ?thesis
    using sys by (simp add: solve_def AB d g Let_def)
qed

theorem unknown_solver_publishes_nan_witness:
  "''newton'' \<notin> set solver_names \<and>
   (\<exists>sys l0. build_matrix (init 2 ''rectangular'' ''val'') True True = Inr (sys, l0)) \<and>
   list_all (\<lambda>i. i < n_nodes (init 2 ''rectangular'' ''val'')) (region (init 2 ''rectangular'' ''val'')) \<and>
   (\<exists>lg. solve example_backends (init 2 ''rectangular'' ''val'') ''newton'' no_kwargs =
      Inr ((init 2 ''rectangular'' ''val'')
             \<lparr>node_c := [NaN, NaN], properties := [''val'' \<mapsto> [NaN, NaN]]\<rparr>, lg))"
proof -
  let ?s = "init 2 ''rectangular'' ''val''"
  have r: "[0..<2] = [0, 1 :: nat]" by (simp add: upt_rec)
  have n: "''newton'' \<notin> set solver_names" by (simp add: solver_names_def)
  obtain sys l0 where b: "build_matrix ?s True True = Inr (sys, l0)"
    by (simp add: eval_defs)
  then have b': "build_matrix ?s True (case kw_damp (no_kwargs :: unit kwargs) of None \<Rightarrow> True | Some d \<Rightarrow> d)
                  = Inr (sys, l0)"
    by (simp add: no_kwargs_def)
  have reg: "list_all (\<lambda>i. i < n_nodes ?s) (region ?s)"
    by (simp add: init_def r)
  from unknown_solver_publishes_nan [OF n b' reg, of example_backends] n b reg
  show ?thesis by (auto simp: init_def numeral_2_eq_2)
qed

text \<open>
  C8, as stated, fails: with no constraint at all, \<open>_solve\<close> with \<open>cg\<close> stores 0, not
  NaN, at the region nodes, and logs that the scalar field is 0.
\<close>

theorem empty_system_counterexample:
  "solve example_backends (init 2 ''rectangular'' ''val'') ''cg'' no_kwargs =
     Inr ((init 2 ''rectangular'' ''val'')
            \<lparr>node_c := [Num 0, Num 0], properties := [''val'' \<mapsto> [Num 0, Num 0]]\<rparr>,
          [Log Info ''Interpolation matrix is %i x %i'' [0, 2],
           Log Info ''Adding eps to matrix diagonal'' [],
           Log Info ''Solving using conjugate gradient'' [],
           Log Warning ''No solution, scalar field 0. Add more data.'' []])"
  by (simp add: eval_defs upt_rec numeral_2_eq_2)

lemma empty_build_matrix:
  assumes "lsq_c s = 0" "lsq_A s = []" "lsq_row s = []" "lsq_col s = []" "lsq_B s = []"
    "eq_const_c s = 0"
  shows "\<exists>M l. build_matrix s True damp = Inr ((M, replicate (nx s) (Num 0)), l)"
proof -
  have "map (\<lambda>i. Num (0::real)) [0..<n] = replicate n (Num 0)" for n
    by (induction n) (simp_all add: replicate_append_same)
  then show ?thesis
    using assms
    by (cases damp)
       (simp_all add: build_matrix_def coo_matrix_def dot_mm_def dot_mv_def transpose_m_def
          add_eye_def o_def)
qed

text \<open>
  C8, amended. With no soft-constraint row, no right-hand side and no equality row, on a
  region of distinct nodes, the square system has a zero right-hand side of length
  \<open>nx\<close>; when conjugate gradients return the zero vector for it, \<open>_solve\<close> with \<open>cg\<close>
  returns, and the stored field is 0 at every region node and NaN at every other node.
\<close>

theorem empty_system_solve:
  assumes empty: "lsq_c s = 0" "lsq_A s = []" "lsq_row s = []" "lsq_col s = []" "lsq_B s = []"
      "eq_const_c s = 0"
    and reg: "region_ok s"
    and cg: "\<And>M. sla_cg bk (kw_opts kw) M (replicate (nx s) (Num 0)) = Inr (replicate (nx s) (Num 0))"
  shows "\<exists>s' lg. solve bk s ''cg'' kw = Inr (s', lg)
     \<and> length (node_c s') = n_nodes s
     \<and> (\<forall>i<n_nodes s. node_c s' ! i = (if i \<in> set (region s) then Num 0 else NaN))
     \<and> properties s' = (properties s)(propertyname s \<mapsto> node_c s')"
proof -
  define damp where "damp = (case kw_damp kw of None \<Rightarrow> True | Some d \<Rightarrow> d)"
  from empty_build_matrix [OF empty] obtain M l where
    b: "build_matrix s True damp = Inr ((M, replicate (nx s) (Num 0)), l)" by blast
  from reg have d: "distinct (region s)" and r: "\<forall>i\<in>set (region s). i < n_nodes s"
    and n: "nx s = length (region s)"
    by (simp_all add: region_ok_def list_all_iff)
  let ?c0 = "replicate (n_nodes s) (NaN :: real np)"
  let ?x = "replicate (nx s) (Num (0::real))"
  let ?c1 = "fold (\<lambda>(i, v) a. a[i := v]) (zip (region s) ?x) ?c0"
  have set: "setitem ?c0 (region s) ?x = Inr ?c1"
    using r n by (auto simp: setitem_def)
  have len: "length ?c1 = n_nodes s"
    by (simp add: fold_update_length)
  have nth: "?c1 ! i = (if i \<in> set (region s) then Num 0 else NaN)" if "i < n_nodes s" for i
  proof -
    have "?c1 ! i = (if i \<in> set (region s) then ?x ! region_local (region s) i else ?c0 ! i)"
      by (rule fold_update_nth) (use d n that in \<open>simp_all\<close>)
    then show ?thesis using that n by (simp add: region_local_less)
  qed
  have get: "getitem ?c1 (region s) = Inr (map (\<lambda>i. ?c1 ! i) (region s))"
    using r len by (auto simp: getitem_def not_le)
  have disp: "dispatch bk s ''cg'' kw M ?x ?c0 =
                Inr (?c1, [Log Info ''Solving using conjugate gradient'' []])"
    using set by (simp add: dispatch_def solve_cg_def cg)
  have "\<exists>lg. solve bk s ''cg'' kw =
          Inr (s\<lparr>node_c := ?c1, properties := (properties s)(propertyname s \<mapsto> ?c1)\<rparr>, lg)"
    using b disp get unfolding solve_def damp_def by (simp add: Let_def)
  then show ?thesis
    using len nth by auto
qed

theorem empty_system_solve_witness:
  "\<exists>s' lg. solve example_backends example_region ''cg'' no_kwargs = Inr (s', lg)
     \<and> length (node_c s') = 3
     \<and> node_c s' ! 0 = Num 0 \<and> node_c s' ! 1 = NaN \<and> node_c s' ! 2 = Num 0
     \<and> properties s' ''val'' = Some (node_c s')"
proof -
  have e: "lsq_c example_region = 0" "lsq_A example_region = []" "lsq_row example_region = []"
    "lsq_col example_region = []" "lsq_B example_region = []" "eq_const_c example_region = 0"
    by (simp_all add: example_region_def init_def)
  have ok: "region_ok example_region"
    by (simp add: region_ok_def example_region_def init_def)
  have cg: "sla_cg example_backends (kw_opts no_kwargs) M (replicate (nx example_region) (Num 0))
              = Inr (replicate (nx example_region) (Num 0))" for M
    by (simp add: example_backends_def list_all_iff)
  from empty_system_solve [OF e ok cg] obtain s' lg where
    run: "solve example_backends example_region ''cg'' no_kwargs = Inr (s', lg)"
    and len: "length (node_c s') = n_nodes example_region"
    and nth: "\<And>i. i < n_nodes example_region \<Longrightarrow>
                node_c s' ! i = (if i \<in> set (region example_region) then Num 0 else NaN)"
    and pr: "properties s' = (properties example_region)(propertyname example_region \<mapsto> node_c s')"
    by blast
  have n: "n_nodes example_region = 3" "region example_region = [0, 2]"
    "propertyname example_region = ''val''"
    by (simp_all add: example_region_def init_def)
  have "node_c s' ! 0 = Num 0" "node_c s' ! 1 = NaN" "node_c s' ! 2 = Num 0"
    using nth [of 0] nth [of 1] nth [of 2] by (simp_all add: n)
  then show ?thesis
    using run len pr n by auto
qed

text \<open>
  A square interpolator starts with \<open>nx\<close> zeros as right-hand sides and no row: the
  product of the transposed matrix with them has mismatched dimensions, and \<open>_solve\<close>
  raises.
\<close>

lemma square_shape_empty_solve_raises:
  "solve bk (init 2 ''square'' ''val'') ''cg'' kw = Inl ValueError"
  by (simp add: solve_def build_matrix_def coo_matrix_def dot_mm_def dot_mv_def transpose_m_def
      init_def Let_def)

text \<open>
  C6. Without scikit-sparse, \<open>_solve\<close> with \<open>chol\<close> does not turn to conjugate gradients:
  \<open>_solve_chol\<close> returns \<open>False\<close>, which is stored as 0 at every region node. On the
  example system, whose solution is not zero, the stored field is zero.
\<close>

theorem chol_missing_writes_zeros:
  "solve example_backends example_system ''chol'' no_kwargs =
     Inr (example_system
            \<lparr>node_c := [Num 0, Num 0], properties := [''val'' \<mapsto> [Num 0, Num 0]]\<rparr>,
          [Log Info ''Interpolation matrix is %i x %i'' [2, 2],
           Log Info ''Equality block is %i x %i'' [1, 2],
           Log Info ''Adding eps to matrix diagonal'' [],
           Log Warning ''Scikit Sparse not installed try using cg instead'' [],
           Log Warning ''No solution, scalar field 0. Add more data.'' []])"
  by (simp add: eval_defs upt_rec numeral_2_eq_2)

text \<open>The same on every system: the region holds 0 whatever the constraints are.\<close>

lemma chol_import_error:
  assumes "\<And>A B. cholesky bk A B = Inl ImportError"
    and "solve bk s ''chol'' kw = Inr (s', lg)"
  shows "\<forall>i\<in>set (region s). node_c s' ! i = Num 0"
proof -
  from assms(2) obtain A B c1 l1 where
    d: "dispatch bk s ''chol'' kw A B (replicate (n_nodes s) NaN) = Inr (c1, l1)"
    and s': "node_c s' = c1"
    unfolding solve_def by (auto simp: Let_def split: sum.splits prod.splits if_splits)
  from d have set: "setitem_scalar (replicate (n_nodes s) NaN) (region s) (Num 0) = Inr c1"
    by (auto simp: dispatch_def solve_chol_def assms(1) split: sum.splits)
  then have "\<forall>i\<in>set (region s). i < n_nodes s"
    by (auto simp: setitem_scalar_def not_le split: if_splits)
  with set show ?thesis
    unfolding s' by (auto simp: setitem_scalar_nth)
qed

text \<open>
  The sibling path: without pyamg, \<open>_solve\<close> with \<open>pyamg\<close> stores what \<open>_solve\<close> with
  \<open>cg\<close> and no solver options stores.
\<close>

lemma pyamg_missing_falls_back:
  assumes "\<And>A B. pyamg_solve bk A B = Inl ImportError"
  shows "map_sum id (node_c \<circ> fst) (solve bk s ''pyamg'' kw) =
         map_sum id (node_c \<circ> fst) (solve bk s ''cg'' (kw\<lparr>kw_opts := None\<rparr>))"
  unfolding solve_def dispatch_def solve_pyamg_def
  by (auto simp: assms Let_def split: sum.splits prod.splits)

end
